theory Spec2Isabelle
  imports Main "HOL-Library.Multiset"
begin

section \<open>Consensus concatenation (CorrectionNode.cpp)\<close>

text \<open>
  \<^verbatim>\<open>concatenate_corrected_windows\<close> walks the per-window consensus strings with two
  locals: the vector \<open>corrected_seqs\<close> of finished sequences and the running buffer
  \<open>corrected_seq\<close>. The loop body is \<open>concat_step\<close>, the loop is \<open>concat_loop\<close>,
  the flush after the loop is in \<open>concatenate_corrected_windows\<close>.
\<close>

fun concat_step :: "string list \<times> string \<Rightarrow> string \<Rightarrow> string list \<times> string" where
  "concat_step (corrected_seqs, corrected_seq) s =
     (if s = [] then
        (if corrected_seq \<noteq> [] then (corrected_seqs @ [corrected_seq], [])
         else (corrected_seqs, corrected_seq))
      else (corrected_seqs, corrected_seq @ s))"

fun concat_loop :: "string list \<Rightarrow> string list \<times> string \<Rightarrow> string list \<times> string" where
  "concat_loop [] acc = acc"
| "concat_loop (s # cons) acc = concat_loop cons (concat_step acc s)"

definition concatenate_corrected_windows :: "string list \<Rightarrow> string list" where
  "concatenate_corrected_windows cons =
     (case concat_loop cons ([], []) of
        (corrected_seqs, corrected_seq) \<Rightarrow>
          if corrected_seq \<noteq> [] then corrected_seqs @ [corrected_seq] else corrected_seqs)"

text \<open>\<^verbatim>\<open>std::to_string\<close> on a \<^verbatim>\<open>size_t\<close>: the decimal digits, most significant first.\<close>

definition digit_char :: "nat \<Rightarrow> char" where
  "digit_char d = char_of (48 + d)"

function to_string :: "nat \<Rightarrow> string" where
  "to_string n =
     (if n < 10 then [digit_char n] else to_string (n div 10) @ [digit_char (n mod 10)])"
  by pat_completeness auto
termination
  by (relation "measure id") auto

declare to_string.simps [simp del]

text \<open>
  A BAM record as far as this node fills it: \<^verbatim>\<open>create_bam_record(read_id, seq)\<close> stores the
  query name and the sequence; every other field is a constant.
\<close>

type_synonym bam_record = "string \<times> string"

definition create_bam_record :: "string \<Rightarrow> string \<Rightarrow> bam_record" where
  "create_bam_record read_id seq = (read_id, seq)"

text \<open>
  The records \<^verbatim>\<open>concat_features_and_send\<close> hands to the sink, in order: one record under
  the read name when exactly one sequence results, otherwise one record per sequence
  under \<^verbatim>\<open>read_name + ":" + std::to_string(s)\<close>.
\<close>

definition concat_records :: "string list \<Rightarrow> string \<Rightarrow> bam_record list" where
  "concat_records to_decode read_name =
     (let corrected_seqs = concatenate_corrected_windows to_decode in
      if length corrected_seqs = 1 then [create_bam_record read_name (corrected_seqs ! 0)]
      else map (\<lambda>s. create_bam_record (read_name @ '':'' @ to_string s) (corrected_seqs ! s))
             [0 ..< length corrected_seqs])"

text \<open>
  The specification's wording of the same result: the maximal runs of non-empty strings,
  each run joined in order. \<open>maximal_runs\<close> cuts the list at every empty string.
\<close>

abbreviation nonempty :: "string \<Rightarrow> bool" where
  "nonempty \<equiv> (\<lambda>s. s \<noteq> [])"

function maximal_runs :: "string list \<Rightarrow> string list list" where
  "maximal_runs [] = []"
| "maximal_runs (s # ss) =
     (if s = [] then maximal_runs ss
      else (s # takeWhile nonempty ss) # maximal_runs (dropWhile nonempty ss))"
  by pat_completeness auto
termination
  by (relation "measure length") (auto simp: length_dropWhile_le less_Suc_eq_le)

definition joined_runs :: "string list \<Rightarrow> string list" where
  "joined_runs cons = map concat (maximal_runs cons)"


definition finish :: "string list \<times> string \<Rightarrow> string list" where
  "finish p = (if snd p \<noteq> [] then fst p @ [snd p] else fst p)"

section \<open>Tensors, exceptions and window features\<close>

text \<open>
  What the node uses of an \<^verbatim>\<open>at::Tensor\<close>: its shape, the device it resides on and its
  elements in row-major order.
\<close>

datatype device = CPU | CUDA nat

datatype 'a tensor = Tensor (t_sizes: "nat list") (t_device: device) (t_data: "'a list")

text \<open>
  \<^verbatim>\<open>t.to(device)\<close> does not change \<open>t\<close>: it returns a tensor with the same shape and
  elements on the given device.
\<close>

definition to_device :: "device \<Rightarrow> 'a tensor \<Rightarrow> 'a tensor" where
  "to_device dev t = Tensor (t_sizes t) dev (t_data t)"

text \<open>
  The ways a worker can leave its normal path: a \<^verbatim>\<open>std::runtime_error\<close> (the only kind the
  \<^verbatim>\<open>catch\<close> in \<^verbatim>\<open>batch_infer\<close> handles), any other exception (a \<^verbatim>\<open>c10::Error\<close> of the
  tensor library is one), and C++ undefined behaviour (an unchecked index out of range,
  dereferencing \<^verbatim>\<open>end()\<close>).
\<close>

datatype exn = Runtime_Error string | Other_Exception string | Undefined_Behaviour

definition sum_bind :: "exn + 'a \<Rightarrow> ('a \<Rightarrow> exn + 'b) \<Rightarrow> exn + 'b" where
  "sum_bind r f = (case r of Inl e \<Rightarrow> Inl e | Inr x \<Rightarrow> f x)"

text \<open>
  \<^verbatim>\<open>t.transpose(0, 1)\<close>: the first two dimensions are exchanged; a tensor of fewer than
  two dimensions is refused by the library (an index error, a \<^verbatim>\<open>c10::Error\<close>).
\<close>

definition transpose01 :: "'a tensor \<Rightarrow> exn + 'a tensor" where
  "transpose01 t =
     (case t_sizes t of
        a # b # rest \<Rightarrow>
          (let k = prod_list rest in
           Inr (Tensor (b # a # rest) (t_device t)
                  (concat (map (\<lambda>j. concat (map (\<lambda>i. take k (drop ((i * b + j) * k) (t_data t)))
                                                [0 ..< a])) [0 ..< b]))))
      | _ \<Rightarrow> Inl (Other_Exception ''Dimension out of range''))"

text \<open>The conversion \<^verbatim>\<open>(int)\<close> of a wider integer, and C++ integer division (towards zero).\<close>

definition to_int32 :: "int \<Rightarrow> int" where
  "to_int32 n = (let m = n mod 2 ^ 32 in if m < 2 ^ 31 then m else m - 2 ^ 32)"

definition c_div :: "int \<Rightarrow> int \<Rightarrow> int" where
  "c_div a b = sgn a * sgn b * (\<bar>a\<bar> div \<bar>b\<bar>)"

text \<open>
  Modelled from the spec: the declaration of \<^verbatim>\<open>WindowFeatures\<close> (utils/types.h) is not among
  the sources; the fields are those section 3 of the specification lists and
  CorrectionNode.cpp reads and writes. \<open>wf_length\<close> is the field \<^verbatim>\<open>length\<close>. The element
  type of the quality tensor (a float) is the parameter \<open>'f\<close>.
\<close>

record 'f WindowFeatures =
  bases :: "int tensor"
  quals :: "'f tensor"
  indices :: "int tensor"
  wf_length :: int
  supported :: "nat list"
  inferred_bases :: "char list"
  n_alns :: int
  read_name :: string
  window_idx :: nat

section \<open>The reassembly tracker: input worker and decode worker\<close>

text \<open>
  The state the input and decode workers share. \<open>m_features_by_id\<close> and
  \<open>m_pending_features_by_id\<close> are the two maps guarded by \<^verbatim>\<open>m_features_mutex\<close>;
  \<open>m_features_queue\<close> holds what was pushed to the inference stage, \<open>sink\<close> the records
  sent downstream, both in order. \<open>concat_calls\<close> is the history of the calls of
  \<^verbatim>\<open>concat_features_and_send\<close> (read name and slot vector), kept to count completions.
\<close>

record 'f node_state =
  m_features_by_id :: "string \<rightharpoonup> string list"
  m_pending_features_by_id :: "string \<rightharpoonup> int"
  m_features_queue :: "'f WindowFeatures list"
  sink :: "bam_record list"
  concat_calls :: "(string \<times> string list) list"
  num_reads :: nat
  num_early_reads :: nat

definition initial_node :: "'f node_state" where
  "initial_node =
     \<lparr>m_features_by_id = Map.empty, m_pending_features_by_id = Map.empty,
      m_features_queue = [], sink = [], concat_calls = [], num_reads = 0, num_early_reads = 0\<rparr>"

definition concat_features_and_send ::
  "string list \<Rightarrow> string \<Rightarrow> 'f node_state \<Rightarrow> 'f node_state" where
  "concat_features_and_send to_decode rname st =
     st\<lparr>sink := sink st @ concat_records to_decode rname,
        concat_calls := concat_calls st @ [(rname, to_decode)]\<rparr>"

text \<open>\<^verbatim>\<open>std::unordered_map::insert\<close> leaves the map as it is when the key is present.\<close>

definition map_insert :: "('k \<rightharpoonup> 'v) \<Rightarrow> 'k \<Rightarrow> 'v \<Rightarrow> ('k \<rightharpoonup> 'v)" where
  "map_insert m k v = (if m k = None then m(k \<mapsto> v) else m)"

text \<open>
  The test of \<^verbatim>\<open>input_thread_fn\<close> that sends a window to inference, and its loop over the
  windows of one message: \<open>w\<close> is the loop index, \<open>corrected_seqs\<close> the slot vector (sized
  to the number of windows, all empty, before the loop), \<open>features_to_infer\<close> the windows
  that need inference.
\<close>

definition needs_inference :: "'f WindowFeatures \<Rightarrow> bool" where
  "needs_inference win \<longleftrightarrow> n_alns win > 1 \<and> length (supported win) > 0"

fun partition_windows ::
  "('f WindowFeatures \<Rightarrow> string) \<Rightarrow> 'f WindowFeatures list \<Rightarrow> nat \<Rightarrow>
   string list \<times> 'f WindowFeatures list \<Rightarrow> string list \<times> 'f WindowFeatures list" where
  "partition_windows decode_window [] w acc = acc"
| "partition_windows decode_window (win # rest) w (corrected_seqs, features_to_infer) =
     (if needs_inference win
      then partition_windows decode_window rest (Suc w) (corrected_seqs, features_to_infer @ [win])
      else partition_windows decode_window rest (Suc w)
             (corrected_seqs[w := decode_window win], features_to_infer))"

text \<open>
  The body of \<^verbatim>\<open>input_thread_fn\<close> for one \<^verbatim>\<open>CorrectionAlignments\<close> message, from the point
  where the features \<open>ws\<close> of the target read \<open>tname\<close> have been extracted (a message that
  fails before that point is skipped and touches no state). \<^verbatim>\<open>decode_window\<close>
  (correct/decode.h) is not among the sources and is a parameter. The third branch is the
  \<^verbatim>\<open>continue\<close> after "Features for ... already exist! Skipping.".
\<close>

definition input_message ::
  "('f WindowFeatures \<Rightarrow> string) \<Rightarrow> string \<Rightarrow> 'f WindowFeatures list \<Rightarrow>
   'f node_state \<Rightarrow> 'f node_state" where
  "input_message decode_window tname ws st =
     (case partition_windows decode_window ws 0 (replicate (length ws) [], []) of
        (corrected_seqs, features_to_infer) \<Rightarrow>
          if features_to_infer = [] then
            (let st1 = concat_features_and_send corrected_seqs tname
                         (st\<lparr>num_early_reads := num_early_reads st + 1\<rparr>)
             in st1\<lparr>num_reads := num_reads st1 + 1\<rparr>)
          else if m_features_by_id st tname = None then
            st\<lparr>m_features_by_id := map_insert (m_features_by_id st) tname corrected_seqs,
               m_pending_features_by_id :=
                 map_insert (m_pending_features_by_id st) tname
                   (to_int32 (int (length features_to_infer))),
               m_features_queue := m_features_queue st @ features_to_infer,
               num_reads := num_reads st + 1\<rparr>
          else st)"

text \<open>
  One iteration of the loop of \<^verbatim>\<open>decode_fn\<close> for the popped window \<open>item\<close>. The block
  under the mutex is one step. Writing a slot beyond the vector and dereferencing the
  \<^verbatim>\<open>end()\<close> of the pending map are undefined behaviour in the source.
\<close>

definition decode_item ::
  "('f WindowFeatures \<Rightarrow> string) \<Rightarrow> 'f WindowFeatures \<Rightarrow> 'f node_state \<Rightarrow>
   exn + 'f node_state" where
  "decode_item decode_window item st =
     (let rname = read_name item; pos = window_idx item; corrected_seq = decode_window item in
      case m_features_by_id st rname of
        None \<Rightarrow> Inr st
      | Some output_features \<Rightarrow>
          if length output_features \<le> pos then Inl Undefined_Behaviour
          else
            (case m_pending_features_by_id st rname of
               None \<Rightarrow> Inl Undefined_Behaviour
             | Some pending \<Rightarrow>
                 (let output_features' = output_features[pos := corrected_seq];
                      pending' = pending - 1
                  in if pending' = 0 then
                       (let to_decode = output_features';
                            st1 = st\<lparr>m_features_by_id := (m_features_by_id st)(rname := None),
                                     m_pending_features_by_id :=
                                       (m_pending_features_by_id st)(rname := None)\<rparr>
                        in if to_decode \<noteq> [] then Inr (concat_features_and_send to_decode rname st1)
                           else Inr st1)
                     else
                       Inr (st\<lparr>m_features_by_id := (m_features_by_id st)(rname \<mapsto> output_features'),
                              m_pending_features_by_id :=
                                (m_pending_features_by_id st)(rname \<mapsto> pending')\<rparr>))))"

fun decode_all ::
  "('f WindowFeatures \<Rightarrow> string) \<Rightarrow> 'f WindowFeatures list \<Rightarrow> 'f node_state \<Rightarrow>
   exn + 'f node_state" where
  "decode_all decode_window [] st = Inr st"
| "decode_all decode_window (item # items) st =
     sum_bind (decode_item decode_window item st) (decode_all decode_window items)"

text \<open>
  Two descriptions used in the statements below: the slot vector as the input worker
  leaves it (a trivial window decoded into its slot, the slot of a window that needs
  inference still empty), and a slot vector after the decode worker has written the
  windows \<open>items\<close> in this order.
\<close>

definition trivial_slots :: "('f WindowFeatures \<Rightarrow> string) \<Rightarrow> 'f WindowFeatures list \<Rightarrow> string list" where
  "trivial_slots decode_window ws =
     map (\<lambda>x. if needs_inference x then [] else decode_window x) ws"

definition write_slots ::
  "('f WindowFeatures \<Rightarrow> string) \<Rightarrow> 'f WindowFeatures list \<Rightarrow> string list \<Rightarrow> string list" where
  "write_slots decode_window items slots =
     foldl (\<lambda>sl item. sl[window_idx item := decode_window item]) slots items"

text \<open>The two maps have the same keys.\<close>

definition same_keys :: "'f node_state \<Rightarrow> bool" where
  "same_keys st \<longleftrightarrow> dom (m_features_by_id st) = dom (m_pending_features_by_id st)"

text \<open>
  The two workers interleave at the granularity of their critical sections: a run of the
  node is a sequence of input messages and decoded windows, applied in the order in which
  they take the mutex.
\<close>

datatype 'f node_event =
  Input_Alignments string "'f WindowFeatures list"
| Decoded "'f WindowFeatures"

fun node_step ::
  "('f WindowFeatures \<Rightarrow> string) \<Rightarrow> 'f node_event \<Rightarrow> 'f node_state \<Rightarrow> exn + 'f node_state" where
  "node_step decode_window (Input_Alignments tname ws) st = Inr (input_message decode_window tname ws st)"
| "node_step decode_window (Decoded item) st = decode_item decode_window item st"

fun run_node ::
  "('f WindowFeatures \<Rightarrow> string) \<Rightarrow> 'f node_event list \<Rightarrow> 'f node_state \<Rightarrow> exn + 'f node_state" where
  "run_node decode_window [] st = Inr st"
| "run_node decode_window (ev # evs) st =
     sum_bind (node_step decode_window ev st) (run_node decode_window evs)"

section \<open>The inference batcher: \<^verbatim>\<open>infer_fn\<close> and \<^verbatim>\<open>batch_infer\<close>\<close>

text \<open>
  The values passed to and returned by \<^verbatim>\<open>module.forward\<close> (\<^verbatim>\<open>torch::jit::IValue\<close>), and the
  calls the worker makes on the backend: \<^verbatim>\<open>module.forward(inputs)\<close> and
  \<^verbatim>\<open>CUDACachingAllocator::emptyCache()\<close>. The log of these calls is kept in the worker's
  state; the backend itself is a parameter, a function of the calls made so far and of
  the inputs.
\<close>

datatype 'f IValue =
  IV_Int_Tensor "int tensor"
| IV_Float_Tensor "'f tensor"
| IV_Tensor_List "int tensor list"
| IV_Tuple "'f IValue list"
| IV_None

datatype 'f backend_event = Forward "'f IValue list" | Empty_Cache

text \<open>
  What \<^verbatim>\<open>infer_fn\<close> is started with. \<open>cuda_build\<close> is the compile-time switch
  \<^verbatim>\<open>DORADO_CUDA_BUILD\<close>. \<^verbatim>\<open>collate\<close> (correct/infer.h) is not among the sources: its two
  instances are parameters.
\<close>

record 'f infer_env =
  device :: device
  batch_size :: int
  cuda_build :: bool
  module_forward :: "'f backend_event list \<Rightarrow> 'f IValue list \<Rightarrow> exn + 'f IValue"
  collate_bases :: "int tensor list \<Rightarrow> int tensor"
  collate_quals :: "'f tensor list \<Rightarrow> 'f tensor"

text \<open>
  The locals of \<^verbatim>\<open>infer_fn\<close> that \<^verbatim>\<open>batch_infer\<close> captures by reference, the windows this
  worker has pushed to \<^verbatim>\<open>m_inferred_features_queue\<close> (in order), and the log of backend
  calls.
\<close>

record 'f infer_state =
  bases_batch :: "int tensor list"
  quals_batch :: "'f tensor list"
  lengths :: "int list"
  sizes :: "int list"
  indices_batch :: "int tensor list"
  wfs :: "'f WindowFeatures list"
  remaining_batch_slots :: int
  m_inferred_features_queue :: "'f WindowFeatures list"
  backend_log :: "'f backend_event list"

definition infer_init :: "'f infer_env \<Rightarrow> 'f infer_state" where
  "infer_init env =
     \<lparr>bases_batch = [], quals_batch = [], lengths = [], sizes = [], indices_batch = [],
      wfs = [], remaining_batch_slots = batch_size env, m_inferred_features_queue = [],
      backend_log = []\<rparr>"

text \<open>
  \<^verbatim>\<open>std::for_each(indices_batch.begin(), indices_batch.end(), [device](at::Tensor& t) {
  t.to(device); })\<close>: the lambda calls \<^verbatim>\<open>t.to(device)\<close> on each element and drops the tensor
  it returns, so the elements of the vector are what they were.
\<close>

definition for_each_to :: "device \<Rightarrow> 'a tensor list \<Rightarrow> 'a tensor list" where
  "for_each_to dev ts = (let dropped = map (to_device dev) ts in ts)"

text \<open>The \<^verbatim>\<open>inputs\<close> vector \<^verbatim>\<open>batch_infer\<close> builds in its move-to-device block.\<close>

definition batch_inputs :: "'f infer_env \<Rightarrow> 'f infer_state \<Rightarrow> 'f IValue list" where
  "batch_inputs env s =
     (let length_tensor = Tensor [length (lengths s)] CPU (lengths s);
          batched_bases = collate_bases env (bases_batch s);
          batched_quals = collate_quals env (quals_batch s)
      in [IV_Int_Tensor (to_device (device env) batched_bases),
          IV_Float_Tensor (to_device (device env) batched_quals),
          IV_Int_Tensor (to_device (device env) length_tensor),
          IV_Tensor_List (for_each_to (device env) (indices_batch s))])"

text \<open>
  The \<^verbatim>\<open>try\<close> block around \<^verbatim>\<open>module.forward\<close>: the result (an exception or the output)
  and the backend log after it. Only a \<^verbatim>\<open>std::runtime_error\<close> is caught; the handler
  clears the cache and calls \<^verbatim>\<open>forward\<close> again in a CUDA build and rethrows otherwise.
\<close>

definition forward_with_retry ::
  "'f infer_env \<Rightarrow> 'f backend_event list \<Rightarrow> 'f IValue list \<Rightarrow>
   (exn + 'f IValue) \<times> 'f backend_event list" where
  "forward_with_retry env log inputs =
     (case module_forward env log inputs of
        Inr output \<Rightarrow> (Inr output, log @ [Forward inputs])
      | Inl (Runtime_Error what) \<Rightarrow>
          if cuda_build env then
            (let log1 = log @ [Forward inputs, Empty_Cache]
             in (module_forward env log1 inputs, log1 @ [Forward inputs]))
          else (Inl (Runtime_Error what), log @ [Forward inputs])
      | Inl e \<Rightarrow> (Inl e, log @ [Forward inputs]))"

text \<open>
  \<^verbatim>\<open>argmax(1, false)\<close> of a two-dimensional tensor: for each row the index of the first
  maximal element. The model covers the logits the backend contract promises (two
  dimensions, at least one class); any other shape is outside it and is reported as an
  exception.
\<close>

definition argmax_row :: "'a::linorder list \<Rightarrow> nat" where
  "argmax_row xs = length (takeWhile (\<lambda>v. v \<noteq> Max (set xs)) xs)"

definition argmax1 :: "'a::linorder tensor \<Rightarrow> exn + int tensor" where
  "argmax1 t =
     (case t_sizes t of
        [n, c] \<Rightarrow>
          if c = 0 then Inl (Other_Exception ''argmax of an empty dimension'')
          else Inr (Tensor [n] (t_device t)
                      (map (\<lambda>i. int (argmax_row (take c (drop (i * c) (t_data t))))) [0 ..< n]))
      | _ \<Rightarrow> Inl (Other_Exception ''logits are not two-dimensional''))"

text \<open>
  \<^verbatim>\<open>output.toTuple()->elements()[1].toTensor()\<close> followed by \<^verbatim>\<open>argmax(1, false).to(kCPU)\<close>,
  after the check that the output is a tuple.
\<close>

definition predictions :: "'f::linorder IValue \<Rightarrow> exn + int tensor" where
  "predictions output =
     (case output of
        IV_Tuple elements \<Rightarrow>
          if length elements \<le> 1 then Inl Undefined_Behaviour
          else
            (case elements ! 1 of
               IV_Float_Tensor base_logits \<Rightarrow>
                 sum_bind (argmax1 base_logits) (\<lambda>p. Inr (to_device CPU p))
             | IV_Int_Tensor base_logits \<Rightarrow>
                 sum_bind (argmax1 base_logits) (\<lambda>p. Inr (to_device CPU p))
             | _ \<Rightarrow> Inl (Other_Exception ''Expected Tensor''))
      | _ \<Rightarrow> Inl (Runtime_Error ''Expected inference result to be tuple.''))"

text \<open>
  \<^verbatim>\<open>preds.split_with_sizes(sizes)\<close> along dimension 0 of a one-dimensional tensor: the
  library refuses sizes that are negative or do not sum to the length.
\<close>

fun split_data :: "'a list \<Rightarrow> nat list \<Rightarrow> 'a list list" where
  "split_data xs [] = []"
| "split_data xs (n # ns) = take n xs # split_data (drop n xs) ns"

definition split_with_sizes :: "'a tensor \<Rightarrow> int list \<Rightarrow> exn + 'a tensor list" where
  "split_with_sizes t szs =
     (case t_sizes t of
        [n] \<Rightarrow>
          if list_all (\<lambda>z. 0 \<le> z) szs \<and> sum_list szs = int n
          then Inr (map (\<lambda>(z, d). Tensor [nat z] (t_device t) d)
                      (zip szs (split_data (t_data t) (map nat szs))))
          else Inl (Other_Exception ''split_with_sizes expects split_sizes to sum exactly'')
      | _ \<Rightarrow> Inl (Other_Exception ''split_with_sizes expects one dimension''))"

text \<open>
  The lambda \<^verbatim>\<open>decode_preds\<close>: one character per element of the prediction vector, through
  the table \<^verbatim>\<open>{'A', 'C', 'G', 'T', '*'}\<close>; the table is a \<^verbatim>\<open>std::array\<close> indexed without a
  check.
\<close>

definition decoder :: "char list" where
  "decoder = ''ACGT*''"

definition decode_preds :: "int tensor \<Rightarrow> exn + char list" where
  "decode_preds preds =
     (let base_idxs = map (\<lambda>i. t_data preds ! i) [0 ..< hd (t_sizes preds)]
      in if list_all (\<lambda>base_idx. 0 \<le> base_idx \<and> base_idx < 5) base_idxs
         then Inr (map (\<lambda>base_idx. decoder ! nat base_idx) base_idxs)
         else Inl Undefined_Behaviour)"

text \<open>
  The loop \<^verbatim>\<open>for (w = 0; w < split_preds.size(); w++) wfs[w].inferred_bases =
  decode_preds(split_preds[w])\<close>.
\<close>

fun assign_inferred ::
  "int tensor list \<Rightarrow> 'f WindowFeatures list \<Rightarrow> exn + 'f WindowFeatures list" where
  "assign_inferred [] ws = Inr ws"
| "assign_inferred (p # ps) [] = Inl Undefined_Behaviour"
| "assign_inferred (p # ps) (x # ws) =
     sum_bind (decode_preds p) (\<lambda>decoded_output.
       sum_bind (assign_inferred ps ws) (\<lambda>ws'.
         Inr (x\<lparr>inferred_bases := decoded_output\<rparr> # ws')))"

text \<open>The prediction vectors a flush hands to the windows of the batch, window by window.\<close>

definition split_preds :: "'f::linorder infer_env \<Rightarrow> 'f infer_state \<Rightarrow> exn + int tensor list" where
  "split_preds env s =
     sum_bind (fst (forward_with_retry env (backend_log s) (batch_inputs env s))) (\<lambda>output.
       sum_bind (predictions output) (\<lambda>preds. split_with_sizes preds (sizes s)))"

definition batch_infer :: "'f::linorder infer_env \<Rightarrow> 'f infer_state \<Rightarrow> exn + 'f infer_state" where
  "batch_infer env s =
     sum_bind (split_preds env s) (\<lambda>sp.
       sum_bind (assign_inferred sp (wfs s)) (\<lambda>ws'.
         Inr (s\<lparr>m_inferred_features_queue := m_inferred_features_queue s @ ws',
                bases_batch := [], quals_batch := [], lengths := [], sizes := [], wfs := [],
                indices_batch := [], remaining_batch_slots := batch_size env,
                backend_log := snd (forward_with_retry env (backend_log s) (batch_inputs env s))\<rparr>)))"

text \<open>
  The body of the loop of \<^verbatim>\<open>infer_fn\<close> for a popped window:
  \<^verbatim>\<open>required_batch_slots = ((int)item.bases.sizes()[1] / 5120) + 1\<close>, the flush when the
  slots do not suffice, and the six \<^verbatim>\<open>push_back\<close>s.
\<close>

definition required_batch_slots :: "'f WindowFeatures \<Rightarrow> exn + int" where
  "required_batch_slots item =
     (case t_sizes (bases item) of
        d0 # d1 # rest \<Rightarrow> Inr (c_div (to_int32 (int d1)) 5120 + 1)
      | _ \<Rightarrow> Inl Undefined_Behaviour)"

definition accept_window :: "'f WindowFeatures \<Rightarrow> int \<Rightarrow> 'f infer_state \<Rightarrow> exn + 'f infer_state" where
  "accept_window item required s =
     sum_bind (transpose01 (bases item)) (\<lambda>b.
       sum_bind (transpose01 (quals item)) (\<lambda>q.
         Inr (s\<lparr>wfs := wfs s @ [item],
                bases_batch := bases_batch s @ [b],
                quals_batch := quals_batch s @ [q],
                lengths := lengths s @ [wf_length item],
                sizes := sizes s @ [wf_length item],
                indices_batch := indices_batch s @ [indices item],
                remaining_batch_slots := remaining_batch_slots s - required\<rparr>)))"

definition on_window :: "'f::linorder infer_env \<Rightarrow> 'f WindowFeatures \<Rightarrow> 'f infer_state \<Rightarrow> exn + 'f infer_state" where
  "on_window env item s =
     sum_bind (required_batch_slots item) (\<lambda>required.
       sum_bind (if required > remaining_batch_slots s then batch_infer env s else Inr s)
         (accept_window item required))"

text \<open>
  What \<^verbatim>\<open>m_features_queue.try_pop_until\<close> returns before the queue terminates: a window or
  a timeout of the 10 second deadline. The loop of \<^verbatim>\<open>infer_fn\<close> runs over the sequence of
  these results; the end of the list is \<^verbatim>\<open>Terminate\<close>, where the loop breaks.
\<close>

datatype 'f pop_result = Success "'f WindowFeatures" | Timeout

definition on_timeout :: "'f::linorder infer_env \<Rightarrow> 'f infer_state \<Rightarrow> exn + 'f infer_state" where
  "on_timeout env s = (if length (bases_batch s) > 0 then batch_infer env s else Inr s)"

fun infer_loop :: "'f::linorder infer_env \<Rightarrow> 'f pop_result list \<Rightarrow> 'f infer_state \<Rightarrow> exn + 'f infer_state" where
  "infer_loop env [] s = Inr s"
| "infer_loop env (Timeout # pops) s = sum_bind (on_timeout env s) (infer_loop env pops)"
| "infer_loop env (Success item # pops) s = sum_bind (on_window env item s) (infer_loop env pops)"

definition infer_fn :: "'f::linorder infer_env \<Rightarrow> 'f pop_result list \<Rightarrow> exn + 'f infer_state" where
  "infer_fn env pops =
     sum_bind (infer_loop env pops (infer_init env)) (\<lambda>s.
       if length (bases_batch s) > 0 then batch_infer env s else Inr s)"

text \<open>The windows among the pop results, in the order they were popped.\<close>

fun popped_windows :: "'f pop_result list \<Rightarrow> 'f WindowFeatures list" where
  "popped_windows [] = []"
| "popped_windows (Timeout # pops) = popped_windows pops"
| "popped_windows (Success item # pops) = item # popped_windows pops"

text \<open>
  Two notions used in the statements below: a window with its \<open>inferred_bases\<close> blanked
  (what a flush does not touch), and the agreement of the parallel accumulators of the
  batcher with the accumulated windows.
\<close>

definition without_inferred :: "'f WindowFeatures \<Rightarrow> 'f WindowFeatures" where
  "without_inferred x = x\<lparr>inferred_bases := []\<rparr>"

definition batch_inv :: "'f infer_state \<Rightarrow> bool" where
  "batch_inv s \<longleftrightarrow>
     sizes s = map wf_length (wfs s) \<and> lengths s = map wf_length (wfs s) \<and>
     indices_batch s = map indices (wfs s) \<and>
     length (bases_batch s) = length (wfs s) \<and> length (quals_batch s) = length (wfs s)"

section \<open>Sample inputs\<close>

text \<open>
  Concrete windows, a concrete \<^verbatim>\<open>decode_window\<close> and a concrete backend, on which the
  definitions above are evaluated further down. \<open>sample_window idx alns spt cols\<close> is
  window number \<open>idx\<close> of the read \<open>read\<close> with \<open>alns\<close> alignments, the supported columns
  \<open>spt\<close> and an MSA of two rows and \<open>cols\<close> columns.
\<close>

definition sample_window :: "nat \<Rightarrow> int \<Rightarrow> nat list \<Rightarrow> nat \<Rightarrow> int WindowFeatures" where
  "sample_window idx alns spt cols =
     \<lparr>bases = Tensor [2, cols] CPU [], quals = Tensor [2, cols] CPU [],
      indices = Tensor [length spt] CPU (map int spt),
      wf_length = int (length spt), supported = spt, inferred_bases = [],
      n_alns = alns, read_name = ''read'', window_idx = idx\<rparr>"

definition sample_decode :: "int WindowFeatures \<Rightarrow> string" where
  "sample_decode x = (if inferred_bases x = [] then ''ACGT'' else inferred_bases x)"

text \<open>
  A backend that answers every batch with logits of five classes, one row per supported
  column of the batch (the sum of the length tensor), class 2 maximal in every row; a
  backend that fails with a \<^verbatim>\<open>std::runtime_error\<close> on its first call and answers like the
  first one afterwards; and an environment on the device \<open>cuda:0\<close> with batch size 4.
\<close>

definition sample_collate :: "'a tensor list \<Rightarrow> 'a tensor" where
  "sample_collate ts = Tensor [length ts] CPU []"

definition sample_forward :: "int backend_event list \<Rightarrow> int IValue list \<Rightarrow> exn + int IValue" where
  "sample_forward log inputs =
     (case inputs of
        [b, q, IV_Int_Tensor lens, idx] \<Rightarrow>
          Inr (IV_Tuple [IV_None,
                 IV_Float_Tensor (Tensor [nat (sum_list (t_data lens)), 5] (t_device lens)
                    (concat (replicate (nat (sum_list (t_data lens))) [0, 0, 9, 0, 0])))])
      | _ \<Rightarrow> Inl (Runtime_Error ''unexpected inputs''))"

definition flaky_forward :: "int backend_event list \<Rightarrow> int IValue list \<Rightarrow> exn + int IValue" where
  "flaky_forward log inputs =
     (if log = [] then Inl (Runtime_Error ''out of memory'') else sample_forward log inputs)"

definition sample_env :: "bool \<Rightarrow> (int backend_event list \<Rightarrow> int IValue list \<Rightarrow> exn + int IValue) \<Rightarrow> int infer_env" where
  "sample_env cuda fwd =
     \<lparr>device = CUDA 0, batch_size = 4, cuda_build = cuda, module_forward = fwd,
      collate_bases = sample_collate, collate_quals = sample_collate\<rparr>"

text \<open>The state of the batcher after it has accepted one window of seven columns.\<close>

definition sample_batch :: "int infer_state" where
  "sample_batch =
     \<lparr>bases_batch = [Tensor [7, 2] CPU []], quals_batch = [Tensor [7, 2] CPU []],
      lengths = [1], sizes = [1], indices_batch = [Tensor [1] CPU [5]],
      wfs = [sample_window 0 2 [5] 7], remaining_batch_slots = 3,
      m_inferred_features_queue = [], backend_log = []\<rparr>"

text \<open>
  The state of the batcher after it has accepted, with batch size 4, one window of 12000
  columns: one slot remains.
\<close>

definition big_batch :: "int infer_state" where
  "big_batch =
     \<lparr>bases_batch = [Tensor [12000, 2] CPU []], quals_batch = [Tensor [12000, 2] CPU []],
      lengths = [1], sizes = [1], indices_batch = [Tensor [1] CPU [5]],
      wfs = [sample_window 0 2 [5] 12000], remaining_batch_slots = 1,
      m_inferred_features_queue = [], backend_log = []\<rparr>"

section \<open>Concatenation yields the joined maximal runs\<close>


lemma joined_runs_simps:
  "joined_runs [] = []"
  "joined_runs ([] # ss) = joined_runs ss"
  "s \<noteq> [] \<Longrightarrow> joined_runs (s # ss) =
     (s @ concat (takeWhile nonempty ss)) # joined_runs (dropWhile nonempty ss)"
  by (simp_all add: joined_runs_def)

lemma concat_loop_joined_runs:
  "finish (concat_loop cons (acc, [])) = acc @ joined_runs cons \<and>
   (cur \<noteq> [] \<longrightarrow> finish (concat_loop cons (acc, cur)) =
       acc @ (cur @ concat (takeWhile nonempty cons)) # joined_runs (dropWhile nonempty cons))"
proof (induction cons arbitrary: acc cur)
  case Nil
  show ?case by (simp add: finish_def joined_runs_simps)
next
  case (Cons s cons)
  show ?case
  proof (cases "s = []")
    case True
    then show ?thesis using Cons.IH by (simp add: joined_runs_simps)
  next
    case False
    then show ?thesis using Cons.IH [of acc s] Cons.IH [of acc "cur @ s"]
      by (simp add: joined_runs_simps)
  qed
qed

lemma concatenate_corrected_windows_runs:
  "concatenate_corrected_windows cons = joined_runs cons"
  using concat_loop_joined_runs [of cons "[]" "[]"]
  by (auto simp: concatenate_corrected_windows_def finish_def split: prod.splits)

text \<open>
  \<open>maximal_runs\<close> is what its name says: every run is a non-empty list of non-empty
  strings, and the runs together are the non-empty strings of the input, in order.
\<close>

lemma maximal_runs_nonempty:
  "r \<in> set (maximal_runs cons) \<Longrightarrow> r \<noteq> [] \<and> (\<forall>s \<in> set r. s \<noteq> [])"
proof (induction cons rule: maximal_runs.induct)
  case 1
  then show ?case by simp
next
  case (2 s ss)
  show ?case
  proof (cases "s = []")
    case True
    with 2 show ?thesis by simp
  next
    case False
    with "2.prems" have "r = s # takeWhile nonempty ss \<or> r \<in> set (maximal_runs (dropWhile nonempty ss))"
      by simp
    then show ?thesis
    proof
      assume "r = s # takeWhile nonempty ss"
      with False show ?thesis by (auto dest: set_takeWhileD)
    next
      assume "r \<in> set (maximal_runs (dropWhile nonempty ss))"
      with "2.IH"(2) False show ?thesis by simp
    qed
  qed
qed

lemma filter_takeWhile_dropWhile:
  "filter P xs = takeWhile P xs @ filter P (dropWhile P xs)"
  by (induction xs) simp_all

lemma maximal_runs_cover: "concat (maximal_runs cons) = filter nonempty cons"
proof (induction cons rule: maximal_runs.induct)
  case 1
  show ?case by simp
next
  case (2 s ss)
  show ?case
  proof (cases "s = []")
    case True
    with 2 show ?thesis by simp
  next
    case False
    with "2.IH"(2) have "concat (maximal_runs (s # ss)) =
        s # takeWhile nonempty ss @ filter nonempty (dropWhile nonempty ss)"
      by simp
    also have "\<dots> = s # filter nonempty ss"
      using filter_takeWhile_dropWhile [of nonempty ss] by simp
    finally show ?thesis using False by simp
  qed
qed

text \<open>
  Claim C1. For every list of window strings, \<^verbatim>\<open>concatenate_corrected_windows\<close> returns
  exactly the maximal runs of non-empty strings, each joined in order, and these are the
  sequences of the emitted records in order; when exactly one sequence results the record
  is named by the read name, and when two or more result the records are named
  \<open>name:0\<close>, \<open>name:1\<close>, ... in order. The records are appended to the sink.
\<close>

theorem C1_concatenation:
  "concatenate_corrected_windows cons = joined_runs cons \<and>
   map snd (concat_records cons rname) = joined_runs cons \<and>
   (length (joined_runs cons) = 1 \<longrightarrow> map fst (concat_records cons rname) = [rname]) \<and>
   (2 \<le> length (joined_runs cons) \<longrightarrow>
      map fst (concat_records cons rname) =
        map (\<lambda>k. rname @ '':'' @ to_string k) [0 ..< length (joined_runs cons)]) \<and>
   sink (concat_features_and_send cons rname st) = sink st @ concat_records cons rname"
proof -
  have *: "concatenate_corrected_windows cons = joined_runs cons"
    by (rule concatenate_corrected_windows_runs)
  have "map snd (concat_records cons rname) = joined_runs cons"
  proof (cases "length (joined_runs cons) = 1")
    case True
    then obtain x where "joined_runs cons = [x]"
      by (cases "joined_runs cons") auto
    then show ?thesis by (simp add: concat_records_def * create_bam_record_def)
  next
    case False
    then show ?thesis
      by (simp add: concat_records_def * create_bam_record_def o_def map_nth Let_def)
  qed
  moreover have "length (joined_runs cons) = 1 \<longrightarrow> map fst (concat_records cons rname) = [rname]"
    by (simp add: concat_records_def * create_bam_record_def)
  moreover have "2 \<le> length (joined_runs cons) \<longrightarrow>
      map fst (concat_records cons rname) =
        map (\<lambda>k. rname @ '':'' @ to_string k) [0 ..< length (joined_runs cons)]"
    by (simp add: concat_records_def * create_bam_record_def o_def Let_def)
  ultimately show ?thesis
    using * by (simp add: concat_features_and_send_def)
qed

theorem C1_concatenation_witness:
  "length (joined_runs [[], ''AC'', ''G'']) = 1 \<and>
   map fst (concat_records [[], ''AC'', ''G''] ''read'') = [''read''] \<and>
   2 \<le> length (joined_runs [''AC'', [], ''G'', ''T'', [], [], ''A'']) \<and>
   map fst (concat_records [''AC'', [], ''G'', ''T'', [], [], ''A''] ''read'') =
     map (\<lambda>k. ''read'' @ '':'' @ to_string k)
       [0 ..< length (joined_runs [''AC'', [], ''G'', ''T'', [], [], ''A''])]"
proof -
  have one: "length (joined_runs [[], ''AC'', ''G'']) = 1"
    by code_simp
  have many: "2 \<le> length (joined_runs [''AC'', [], ''G'', ''T'', [], [], ''A''])"
    by code_simp
  show ?thesis
    using one many
      C1_concatenation [of "[[], ''AC'', ''G'']" "''read''"]
      C1_concatenation [of "[''AC'', [], ''G'', ''T'', [], [], ''A'']" "''read''"]
    by blast
qed

lemma concat_records_example:
  "concat_records [''AC'', [], ''G'', ''T'', [], [], ''A''] ''read'' =
     [(''read:0'', ''AC''), (''read:1'', ''GT''), (''read:2'', ''A'')]"
  by code_simp


section \<open>The reassembly tracker: partition, ingestion and decoding\<close>

lemma partition_windows_snd:
  "snd (partition_windows dw ws w (cs, fti)) = fti @ filter needs_inference ws"
  by (induction ws arbitrary: w cs fti) auto

lemma partition_windows_length:
  "length (fst (partition_windows dw ws w (cs, fti))) = length cs"
  by (induction ws arbitrary: w cs fti) auto

lemma partition_windows_nth:
  "i < length cs \<Longrightarrow>
   fst (partition_windows dw ws w (cs, fti)) ! i =
     (if w \<le> i \<and> i < w + length ws \<and> \<not> needs_inference (ws ! (i - w))
      then dw (ws ! (i - w)) else cs ! i)"
proof (induction ws arbitrary: w cs fti)
  case Nil
  show ?case by auto
next
  case (Cons x rest)
  show ?case
  proof (cases "i = w")
    case True
    with Cons show ?thesis by simp
  next
    case False
    with Cons show ?thesis
      by (auto simp: nth_Cons' Suc_diff_Suc not_less less_Suc_eq_le Suc_le_eq)
  qed
qed

lemma partition_windows_slots:
  "partition_windows dw ws 0 (replicate (length ws) [], []) =
     (trivial_slots dw ws, filter needs_inference ws)"
proof -
  have "fst (partition_windows dw ws 0 (replicate (length ws) [], [])) = trivial_slots dw ws"
    by (rule nth_equalityI)
       (simp_all add: partition_windows_length partition_windows_nth trivial_slots_def)
  moreover have "snd (partition_windows dw ws 0 (replicate (length ws) [], [])) =
      filter needs_inference ws"
    by (simp add: partition_windows_snd)
  ultimately show ?thesis by (metis prod.collapse)
qed

lemma input_message_trivial:
  "filter needs_inference ws = [] \<Longrightarrow>
   input_message dw tname ws st =
     st\<lparr>num_early_reads := num_early_reads st + 1,
        sink := sink st @ concat_records (trivial_slots dw ws) tname,
        concat_calls := concat_calls st @ [(tname, trivial_slots dw ws)],
        num_reads := num_reads st + 1\<rparr>"
  by (simp add: input_message_def partition_windows_slots concat_features_and_send_def)

lemma input_message_fresh:
  "filter needs_inference ws \<noteq> [] \<Longrightarrow> m_features_by_id st tname = None \<Longrightarrow>
   input_message dw tname ws st =
     st\<lparr>m_features_by_id := (m_features_by_id st)(tname \<mapsto> trivial_slots dw ws),
        m_pending_features_by_id :=
          map_insert (m_pending_features_by_id st) tname
            (to_int32 (int (length (filter needs_inference ws)))),
        m_features_queue := m_features_queue st @ filter needs_inference ws,
        num_reads := num_reads st + 1\<rparr>"
  by (simp add: input_message_def partition_windows_slots map_insert_def)

lemma input_message_duplicate:
  "filter needs_inference ws \<noteq> [] \<Longrightarrow> m_features_by_id st tname \<noteq> None \<Longrightarrow>
   input_message dw tname ws st = st"
  by (auto simp add: input_message_def partition_windows_slots)

lemma to_int32_small: "0 \<le> n \<Longrightarrow> n < 2 ^ 31 \<Longrightarrow> to_int32 n = n"
  by (simp add: to_int32_def Let_def)

lemma sum_bind_simps [simp]:
  "sum_bind (Inl e) f = Inl e"
  "sum_bind (Inr x) f = f x"
  by (simp_all add: sum_bind_def)

lemma decode_all_append:
  "decode_all dw (xs @ ys) st = sum_bind (decode_all dw xs st) (decode_all dw ys)"
  by (induction xs arbitrary: st) (auto simp: sum_bind_def split: sum.splits)

lemma write_slots_length [simp]: "length (write_slots dw items sl) = length sl"
  by (induction items arbitrary: sl) (simp_all add: write_slots_def)

lemma write_slots_Cons:
  "write_slots dw (item # items) sl = write_slots dw items (sl[window_idx item := dw item])"
  by (simp add: write_slots_def)

lemma write_slots_snoc:
  "write_slots dw (items @ [item]) sl = (write_slots dw items sl)[window_idx item := dw item]"
  by (simp add: write_slots_def)

lemma decode_item_pending:
  "m_features_by_id st (read_name item) = Some sl \<Longrightarrow>
   m_pending_features_by_id st (read_name item) = Some p \<Longrightarrow>
   window_idx item < length sl \<Longrightarrow> p \<noteq> 1 \<Longrightarrow>
   decode_item dw item st =
     Inr (st\<lparr>m_features_by_id := (m_features_by_id st)(read_name item \<mapsto> sl[window_idx item := dw item]),
            m_pending_features_by_id := (m_pending_features_by_id st)(read_name item \<mapsto> p - 1)\<rparr>)"
  by (simp add: decode_item_def Let_def)

lemma decode_item_last:
  "m_features_by_id st (read_name item) = Some sl \<Longrightarrow>
   m_pending_features_by_id st (read_name item) = Some 1 \<Longrightarrow>
   window_idx item < length sl \<Longrightarrow>
   decode_item dw item st =
     Inr (concat_features_and_send (sl[window_idx item := dw item]) (read_name item)
            (st\<lparr>m_features_by_id := (m_features_by_id st)(read_name item := None),
               m_pending_features_by_id := (m_pending_features_by_id st)(read_name item := None)\<rparr>))"
  by (auto simp add: decode_item_def Let_def)

lemma decode_all_pending:
  "m_features_by_id st tname = Some sl \<Longrightarrow>
   m_pending_features_by_id st tname = Some p \<Longrightarrow>
   \<forall>item \<in> set items. read_name item = tname \<and> window_idx item < length sl \<Longrightarrow>
   int (length items) < p \<Longrightarrow>
   decode_all dw items st =
     Inr (st\<lparr>m_features_by_id := (m_features_by_id st)(tname \<mapsto> write_slots dw items sl),
            m_pending_features_by_id := (m_pending_features_by_id st)(tname \<mapsto> p - int (length items))\<rparr>)"
proof (induction items arbitrary: st sl p)
  case Nil
  then show ?case by (simp add: write_slots_def fun_upd_idem)
next
  case (Cons item items)
  let ?st1 = "st\<lparr>m_features_by_id := (m_features_by_id st)(tname \<mapsto> sl[window_idx item := dw item]),
            m_pending_features_by_id := (m_pending_features_by_id st)(tname \<mapsto> p - 1)\<rparr>"
  have step: "decode_item dw item st = Inr ?st1"
    using Cons.prems decode_item_pending [of st item sl p dw] by auto
  have "decode_all dw items ?st1 =
     Inr (?st1\<lparr>m_features_by_id := (m_features_by_id ?st1)(tname \<mapsto> write_slots dw items (sl[window_idx item := dw item])),
            m_pending_features_by_id := (m_pending_features_by_id ?st1)(tname \<mapsto> (p - 1) - int (length items))\<rparr>)"
    using Cons.prems by (intro Cons.IH) auto
  moreover have "p - 1 - int (length items) = p - int (length (item # items))"
    by simp
  ultimately have "decode_all dw items ?st1 =
     Inr (st\<lparr>m_features_by_id := (m_features_by_id st)(tname \<mapsto> write_slots dw (item # items) sl),
            m_pending_features_by_id := (m_pending_features_by_id st)(tname \<mapsto> p - int (length (item # items)))\<rparr>)"
    by (simp only: write_slots_Cons) simp
  then show ?case
    using step by (simp only: decode_all.simps sum_bind_simps)
qed

lemma decode_all_complete:
  assumes "m_features_by_id st tname = Some sl"
    and "m_pending_features_by_id st tname = Some (int (length items))"
    and "\<forall>item \<in> set items. read_name item = tname \<and> window_idx item < length sl"
    and "items \<noteq> []"
  shows "decode_all dw items st =
     Inr (concat_features_and_send (write_slots dw items sl) tname
            (st\<lparr>m_features_by_id := (m_features_by_id st)(tname := None),
               m_pending_features_by_id := (m_pending_features_by_id st)(tname := None)\<rparr>))"
proof -
  obtain front item where items: "items = front @ [item]"
    using assms(4) by (metis rev_exhaust)
  let ?st1 = "st\<lparr>m_features_by_id := (m_features_by_id st)(tname \<mapsto> write_slots dw front sl),
            m_pending_features_by_id := (m_pending_features_by_id st)(tname \<mapsto> int (length items) - int (length front))\<rparr>"
  have front: "decode_all dw front st = Inr ?st1"
    using assms items by (intro decode_all_pending) auto
  have name: "read_name item = tname" and idx: "window_idx item < length sl"
    using assms(3) items by auto
  have "decode_item dw item ?st1 =
     Inr (concat_features_and_send ((write_slots dw front sl)[window_idx item := dw item]) (read_name item)
            (?st1\<lparr>m_features_by_id := (m_features_by_id ?st1)(read_name item := None),
               m_pending_features_by_id := (m_pending_features_by_id ?st1)(read_name item := None)\<rparr>))"
    using name idx items by (intro decode_item_last) auto
  then show ?thesis
    using front name by (simp add: items decode_all_append write_slots_snoc)
qed

subsection \<open>The pending counter\<close>





subsection \<open>Ingestion, duplicates and the key invariant\<close>

lemma sample_needs [simp]:
  "needs_inference (sample_window idx alns spt cols) \<longleftrightarrow> 1 < alns \<and> spt \<noteq> []"
  by (simp add: needs_inference_def sample_window_def)

lemma sample_fields [simp]:
  "window_idx (sample_window idx alns spt cols) = idx"
  "read_name (sample_window idx alns spt cols) = ''read''"
  "window_idx (x\<lparr>inferred_bases := b\<rparr>) = window_idx x"
  "read_name (x\<lparr>inferred_bases := b\<rparr>) = read_name x"
  by (simp_all add: sample_window_def)



text \<open>
  Claim C5, as stated, fails on a message whose read name already has an entry in the
  maps: its window below has three alignments and two supported columns, yet after the
  message the features queue holds only the window of the first message, and no
  completion has happened either.
\<close>

theorem C5_counterexample:
  "needs_inference (sample_window 0 3 [0, 4] 7) \<and>
   m_features_queue
     (input_message sample_decode ''read'' [sample_window 0 3 [0, 4] 7]
        (input_message sample_decode ''read'' [sample_window 0 2 [5] 7] initial_node)) =
   [sample_window 0 2 [5] 7] \<and>
   sample_window 0 3 [0, 4] 7 \<noteq> sample_window 0 2 [5] 7 \<and>
   concat_calls
     (input_message sample_decode ''read'' [sample_window 0 3 [0, 4] 7]
        (input_message sample_decode ''read'' [sample_window 0 2 [5] 7] initial_node)) = []"
proof -
  have "sample_window 0 3 [0, 4] 7 \<noteq> sample_window 0 2 [5] 7"
    by (simp add: sample_window_def)
  then show ?thesis
    by (simp add: input_message_def map_insert_def initial_node_def)
qed

text \<open>
  Claim C5, amended. The windows that need inference are those with \<open>n_alns > 1\<close> and a
  non-empty supported list. A message whose read name has no entry in the maps pushes
  exactly these windows, in order, to the features queue and decodes every other window
  trivially into its slot; a message whose read name has an entry pushes nothing. A
  message all of whose windows are trivial is completed at once, exactly once, in the
  input worker: one call of \<^verbatim>\<open>concat_features_and_send\<close> on the trivially decoded
  windows, no change to either map and nothing pushed to the features queue.
\<close>

theorem C5_ingestion:
  "(filter (\<lambda>x. 1 < n_alns x \<and> supported x \<noteq> []) ws = filter needs_inference ws) \<and>
   (m_features_by_id st tname = None \<or> filter needs_inference ws = [] \<longrightarrow>
      m_features_queue (input_message dw tname ws st) =
        m_features_queue st @ filter needs_inference ws) \<and>
   (m_features_by_id st tname \<noteq> None \<longrightarrow>
      m_features_queue (input_message dw tname ws st) = m_features_queue st) \<and>
   (filter needs_inference ws \<noteq> [] \<and> m_features_by_id st tname = None \<longrightarrow>
      m_features_by_id (input_message dw tname ws st) tname = Some (trivial_slots dw ws) \<and>
      length (trivial_slots dw ws) = length ws \<and>
      (\<forall>w < length ws. \<not> needs_inference (ws ! w) \<longrightarrow> trivial_slots dw ws ! w = dw (ws ! w)) \<and>
      concat_calls (input_message dw tname ws st) = concat_calls st) \<and>
   (filter needs_inference ws = [] \<longrightarrow>
      concat_calls (input_message dw tname ws st) = concat_calls st @ [(tname, map dw ws)] \<and>
      sink (input_message dw tname ws st) = sink st @ concat_records (map dw ws) tname \<and>
      m_features_by_id (input_message dw tname ws st) = m_features_by_id st \<and>
      m_pending_features_by_id (input_message dw tname ws st) = m_pending_features_by_id st \<and>
      m_features_queue (input_message dw tname ws st) = m_features_queue st \<and>
      num_early_reads (input_message dw tname ws st) = num_early_reads st + 1)"
proof -
  have triv: "filter needs_inference ws = [] \<Longrightarrow> trivial_slots dw ws = map dw ws"
    by (auto simp: trivial_slots_def filter_empty_conv)
  have a: "filter (\<lambda>x. 1 < n_alns x \<and> supported x \<noteq> []) ws = filter needs_inference ws"
    by (intro filter_cong refl) (simp add: needs_inference_def)
  show ?thesis
  proof (cases "filter needs_inference ws = []")
    case True
    then show ?thesis
      using a by (simp add: input_message_trivial triv)
  next
    case False
    show ?thesis
    proof (cases "m_features_by_id st tname")
      case None
      with False a show ?thesis
        by (simp add: input_message_fresh trivial_slots_def)
    next
      case (Some sl)
      with False a show ?thesis
        by (simp add: input_message_duplicate)
    qed
  qed
qed

lemma same_keys_iff:
  "same_keys st \<longleftrightarrow>
     (\<forall>k. m_features_by_id st k = None \<longleftrightarrow> m_pending_features_by_id st k = None)"
  unfolding same_keys_def set_eq_iff domIff by (simp only: Not_eq_iff)

lemma input_message_same_keys:
  assumes "same_keys st"
  shows "same_keys (input_message dw tname ws st)"
proof (cases "filter needs_inference ws = []")
  case True
  with assms show ?thesis by (simp add: input_message_trivial same_keys_iff)
next
  case False
  show ?thesis
  proof (cases "m_features_by_id st tname")
    case None
    then have "m_pending_features_by_id st tname = None"
      using assms by (simp add: same_keys_iff)
    with None False assms show ?thesis
      by (simp add: input_message_fresh same_keys_iff map_insert_def)
  next
    case (Some sl)
    with False assms show ?thesis by (simp add: input_message_duplicate)
  qed
qed

lemma decode_item_same_keys:
  assumes "same_keys st" and "decode_item dw item st = Inr s"
  shows "same_keys s"
  using assms
  by (auto simp: decode_item_def Let_def same_keys_iff concat_features_and_send_def
           split: option.splits if_splits)

lemma run_node_same_keys:
  "same_keys st \<Longrightarrow> run_node dw evs st = Inr s \<Longrightarrow> same_keys s"
proof (induction evs arbitrary: st)
  case Nil
  then show ?case by simp
next
  case (Cons ev evs)
  show ?case
  proof (cases ev)
    case (Input_Alignments tname ws)
    with Cons.prems have "run_node dw evs (input_message dw tname ws st) = Inr s"
      by simp
    with Cons.IH input_message_same_keys [OF Cons.prems(1)] show ?thesis by blast
  next
    case (Decoded item)
    with Cons.prems obtain s1 where s1: "decode_item dw item st = Inr s1"
      and rest: "run_node dw evs s1 = Inr s"
      by (cases "decode_item dw item st") auto
    with Cons.IH decode_item_same_keys [OF Cons.prems(1) s1] show ?thesis by blast
  qed
qed

lemma decode_item_pending_present:
  assumes "same_keys st"
  shows "decode_item dw item st \<noteq> Inl Undefined_Behaviour \<or>
         (\<exists>sl. m_features_by_id st (read_name item) = Some sl \<and> length sl \<le> window_idx item)"
proof -
  have "m_features_by_id st (read_name item) = None \<longleftrightarrow>
        m_pending_features_by_id st (read_name item) = None"
    using assms by (simp add: same_keys_iff)
  then show ?thesis
    by (auto simp: decode_item_def Let_def split: option.splits if_splits)
qed

text \<open>
  Claim C10. In every state the node reaches from its initial state by input messages and
  decoded windows, each taking the mutex for its whole critical section, the two maps
  have the same set of read names as keys.
\<close>

theorem C10_same_keys:
  assumes "run_node dw evs initial_node = Inr s"
  shows "dom (m_features_by_id s) = dom (m_pending_features_by_id s)"
proof -
  have "same_keys (initial_node :: 'a node_state)"
    by (simp add: same_keys_def initial_node_def)
  then have "same_keys s" using assms by (rule run_node_same_keys)
  then show ?thesis by (simp add: same_keys_def)
qed

theorem C5_ingestion_witness:
  "filter needs_inference [sample_window 0 1 [] 7, sample_window 1 2 [] 7] = [] \<and>
   concat_calls (input_message sample_decode ''read''
       [sample_window 0 1 [] 7, sample_window 1 2 [] 7] initial_node) =
     [(''read'', [''ACGT'', ''ACGT''])] \<and>
   m_features_queue (input_message sample_decode ''read''
       [sample_window 0 1 [] 7, sample_window 1 2 [] 7] initial_node) = [] \<and>
   m_features_by_id (initial_node :: int node_state) ''read'' = None \<and>
   filter needs_inference [sample_window 0 1 [] 7, sample_window 1 2 [5] 7] \<noteq> [] \<and>
   m_features_queue (input_message sample_decode ''read''
       [sample_window 0 1 [] 7, sample_window 1 2 [5] 7] initial_node) =
     [sample_window 1 2 [5] 7] \<and>
   m_features_by_id (input_message sample_decode ''read''
       [sample_window 0 1 [] 7, sample_window 1 2 [5] 7] initial_node) ''read'' =
     Some [''ACGT'', []]"
proof -
  let ?triv = "[sample_window 0 1 [] 7, sample_window 1 2 [] 7]"
  let ?mixed = "[sample_window 0 1 [] 7, sample_window 1 2 [5] 7]"
  have t: "filter needs_inference ?triv = []"
    by simp
  have m: "filter needs_inference ?mixed \<noteq> []" and m': "filter needs_inference ?mixed = [sample_window 1 2 [5] 7]"
    by simp_all
  have fresh: "m_features_by_id (initial_node :: int node_state) ''read'' = None"
    by (simp add: initial_node_def)
  have init: "concat_calls (initial_node :: int node_state) = []"
    "m_features_queue (initial_node :: int node_state) = []"
    by (simp_all add: initial_node_def)
  have dec: "map sample_decode ?triv = [''ACGT'', ''ACGT'']"
    by (simp add: sample_decode_def sample_window_def)
  have sl: "trivial_slots sample_decode ?mixed = [''ACGT'', []]"
    by (simp add: trivial_slots_def sample_decode_def sample_window_def needs_inference_def)
  show ?thesis
    using C5_ingestion [of ?triv initial_node "''read''" sample_decode]
      C5_ingestion [of ?mixed initial_node "''read''" sample_decode]
    unfolding t m' sl dec
    by (simp add: init fresh)
qed

theorem C10_same_keys_witness:
  "\<exists>s. run_node sample_decode
          [Input_Alignments ''read'' [sample_window 0 1 [] 7, sample_window 1 2 [5] 7],
           Input_Alignments ''other'' [sample_window 0 2 [1] 7, sample_window 1 2 [5] 7],
           Decoded ((sample_window 1 2 [5] 7)\<lparr>inferred_bases := ''C''\<rparr>)]
          initial_node = Inr s \<and>
       dom (m_features_by_id s) = dom (m_pending_features_by_id s) \<and>
       m_features_by_id s ''read'' = None \<and>
       m_features_by_id s ''other'' = Some [[], []]"
proof -
  let ?evs = "[Input_Alignments ''read'' [sample_window 0 1 [] 7, sample_window 1 2 [5] 7],
           Input_Alignments ''other'' [sample_window 0 2 [1] 7, sample_window 1 2 [5] 7],
           Decoded ((sample_window 1 2 [5] 7)\<lparr>inferred_bases := ''C''\<rparr>)]"
  have "\<exists>s. run_node sample_decode ?evs initial_node = Inr s \<and>
       m_features_by_id s ''read'' = None \<and> m_features_by_id s ''other'' = Some [[], []]"
    by (simp add: input_message_def map_insert_def initial_node_def decode_item_def Let_def
          to_int32_def concat_features_and_send_def)
  then obtain s where run: "run_node sample_decode ?evs initial_node = Inr s"
    and r: "m_features_by_id s ''read'' = None" and ot: "m_features_by_id s ''other'' = Some [[], []]"
    by blast
  from C10_same_keys [OF run] run r ot show ?thesis by blast
qed

text \<open>
  Claim C8, as stated, fails on a message all of whose windows are trivial: the read name
  below has an entry in the maps, and the second message under that name is not dropped
  but concatenated and sent to the sink at once.
\<close>

theorem C8_counterexample:
  "m_features_by_id
     (input_message sample_decode ''read'' [sample_window 0 2 [5] 7] initial_node) ''read'' \<noteq> None \<and>
   sink (input_message sample_decode ''read'' [sample_window 0 2 [5] 7] initial_node) = [] \<and>
   sink (input_message sample_decode ''read'' [sample_window 0 1 [] 7]
          (input_message sample_decode ''read'' [sample_window 0 2 [5] 7] initial_node)) =
     [(''read'', ''ACGT'')]"
proof -
  have "concat_records [''ACGT''] ''read'' = [(''read'', ''ACGT'')]"
    by code_simp
  then show ?thesis
    by (simp add: input_message_def map_insert_def initial_node_def concat_features_and_send_def
          sample_decode_def sample_window_def needs_inference_def)
qed

text \<open>
  Claim C8, amended. A message whose read name already has an entry in the maps modifies
  no entry of either map and pushes none of its windows to the features queue. When at
  least one of its windows needs inference it is dropped: the state after it is the state
  before it. When all its windows are trivial it is concatenated and emitted at once. In
  both cases the first read with that name completes as usual: once the decode worker has
  received its outstanding windows, its entries are erased and its slot vector is
  concatenated and sent, once.
\<close>

theorem C8_duplicate:
  assumes dup: "m_features_by_id st tname \<noteq> None"
  shows "m_features_by_id (input_message dw tname ws st) = m_features_by_id st \<and>
     m_pending_features_by_id (input_message dw tname ws st) = m_pending_features_by_id st \<and>
     m_features_queue (input_message dw tname ws st) = m_features_queue st \<and>
     (filter needs_inference ws \<noteq> [] \<longrightarrow> input_message dw tname ws st = st) \<and>
     (filter needs_inference ws = [] \<longrightarrow>
        sink (input_message dw tname ws st) = sink st @ concat_records (map dw ws) tname \<and>
        concat_calls (input_message dw tname ws st) = concat_calls st @ [(tname, map dw ws)]) \<and>
     (\<forall>items sl.
        m_features_by_id st tname = Some sl \<and>
        m_pending_features_by_id st tname = Some (int (length items)) \<and> items \<noteq> [] \<and>
        (\<forall>item \<in> set items. read_name item = tname \<and> window_idx item < length sl) \<longrightarrow>
        (\<exists>s. decode_all dw items (input_message dw tname ws st) = Inr s \<and>
             m_features_by_id s tname = None \<and> m_pending_features_by_id s tname = None \<and>
             concat_calls s =
               concat_calls (input_message dw tname ws st) @ [(tname, write_slots dw items sl)]))"
proof -
  let ?st' = "input_message dw tname ws st"
  have triv: "filter needs_inference ws = [] \<Longrightarrow> trivial_slots dw ws = map dw ws"
    by (auto simp: trivial_slots_def filter_empty_conv)
  have maps: "m_features_by_id ?st' = m_features_by_id st \<and>
     m_pending_features_by_id ?st' = m_pending_features_by_id st \<and>
     m_features_queue ?st' = m_features_queue st \<and>
     (filter needs_inference ws \<noteq> [] \<longrightarrow> ?st' = st) \<and>
     (filter needs_inference ws = [] \<longrightarrow>
        sink ?st' = sink st @ concat_records (map dw ws) tname \<and>
        concat_calls ?st' = concat_calls st @ [(tname, map dw ws)])"
  proof (cases "filter needs_inference ws = []")
    case True
    then show ?thesis by (simp add: input_message_trivial triv)
  next
    case False
    with dup show ?thesis by (simp add: input_message_duplicate)
  qed
  have first: "\<exists>s. decode_all dw items ?st' = Inr s \<and>
             m_features_by_id s tname = None \<and> m_pending_features_by_id s tname = None \<and>
             concat_calls s = concat_calls ?st' @ [(tname, write_slots dw items sl)]"
    if "m_features_by_id st tname = Some sl"
      and "m_pending_features_by_id st tname = Some (int (length items))" and "items \<noteq> []"
      and "\<forall>item \<in> set items. read_name item = tname \<and> window_idx item < length sl"
    for items sl
  proof -
    have "decode_all dw items ?st' =
      Inr (concat_features_and_send (write_slots dw items sl) tname
            (?st'\<lparr>m_features_by_id := (m_features_by_id ?st')(tname := None),
               m_pending_features_by_id := (m_pending_features_by_id ?st')(tname := None)\<rparr>))"
      using that maps by (intro decode_all_complete) simp_all
    then show ?thesis
      by (simp add: concat_features_and_send_def)
  qed
  from maps first show ?thesis by blast
qed

theorem C8_duplicate_witness:
  "m_features_by_id
     (input_message sample_decode ''read'' [sample_window 0 2 [5] 7] initial_node) ''read'' \<noteq> None \<and>
   filter needs_inference [sample_window 0 3 [0, 4] 7] \<noteq> [] \<and>
   input_message sample_decode ''read'' [sample_window 0 3 [0, 4] 7]
     (input_message sample_decode ''read'' [sample_window 0 2 [5] 7] initial_node) =
   input_message sample_decode ''read'' [sample_window 0 2 [5] 7] initial_node \<and>
   (\<exists>s. decode_all sample_decode [(sample_window 0 2 [5] 7)\<lparr>inferred_bases := ''C''\<rparr>]
          (input_message sample_decode ''read'' [sample_window 0 3 [0, 4] 7]
            (input_message sample_decode ''read'' [sample_window 0 2 [5] 7] initial_node)) = Inr s \<and>
        m_features_by_id s ''read'' = None)"
proof -
  let ?st1 = "input_message sample_decode ''read'' [sample_window 0 2 [5] 7] (initial_node :: int node_state)"
  let ?items = "[(sample_window 0 2 [5] 7)\<lparr>inferred_bases := ''C''\<rparr>]"
  have f: "m_features_by_id ?st1 ''read'' = Some [[]]"
    and p: "m_pending_features_by_id ?st1 ''read'' = Some (int (length ?items))"
    by (simp_all add: input_message_def map_insert_def initial_node_def to_int32_def)
  have dup: "m_features_by_id ?st1 ''read'' \<noteq> None"
    using f by simp
  have ne: "filter needs_inference [sample_window 0 3 [0, 4] 7] \<noteq> []"
    by simp
  have items: "?items \<noteq> []"
    "\<forall>item \<in> set ?items. read_name item = ''read'' \<and> window_idx item < length [[] :: string]"
    by simp_all
  show ?thesis
    using C8_duplicate [OF dup, of sample_decode "[sample_window 0 3 [0, 4] 7]"] dup ne f p items
    by blast
qed

section \<open>The inference batcher: splitting, decoding and flushing\<close>

lemma split_data_length [simp]: "length (split_data xs ns) = length ns"
  by (induction ns arbitrary: xs) simp_all


lemma decode_preds_length:
  "decode_preds p = Inr d \<Longrightarrow> length d = hd (t_sizes p)"
  by (auto simp: decode_preds_def Let_def split: if_splits)

lemma assign_inferred_Inr:
  "assign_inferred sp ws = Inr ws' \<Longrightarrow>
     length ws' = length ws \<and> map without_inferred ws' = map without_inferred ws \<and>
     (\<forall>i < length sp. i < length ws \<and>
        ws' ! i = (ws ! i)\<lparr>inferred_bases := inferred_bases (ws' ! i)\<rparr> \<and>
        length (inferred_bases (ws' ! i)) = hd (t_sizes (sp ! i)))"
proof (induction sp ws arbitrary: ws' rule: assign_inferred.induct)
  case (1 ws)
  then show ?case by simp
next
  case (2 p ps)
  then show ?case by simp
next
  case (3 p ps x ws)
  from "3.prems" obtain d rest where d: "decode_preds p = Inr d"
    and rest: "assign_inferred ps ws = Inr rest"
    and ws': "ws' = x\<lparr>inferred_bases := d\<rparr> # rest"
    by (auto simp: sum_bind_def split: sum.splits)
  from "3.IH" [OF rest] decode_preds_length [OF d] show ?case
    by (auto simp: ws' without_inferred_def nth_Cons split: nat.splits)
qed

lemma batch_infer_Inr:
  assumes "batch_infer env s = Inr s'"
  obtains sp ws' where "split_preds env s = Inr sp" and "assign_inferred sp (wfs s) = Inr ws'"
    and "s' = s\<lparr>m_inferred_features_queue := m_inferred_features_queue s @ ws',
                bases_batch := [], quals_batch := [], lengths := [], sizes := [], wfs := [],
                indices_batch := [], remaining_batch_slots := batch_size env,
                backend_log := snd (forward_with_retry env (backend_log s) (batch_inputs env s))\<rparr>"
  using assms by (auto simp: batch_infer_def sum_bind_def split: sum.splits)


lemma batch_infer_effect:
  assumes "batch_infer env s = Inr s'"
  shows "batch_inv s' \<and> wfs s' = [] \<and> bases_batch s' = [] \<and>
     remaining_batch_slots s' = batch_size env \<and>
     (\<exists>ws'. m_inferred_features_queue s' = m_inferred_features_queue s @ ws' \<and>
        length ws' = length (wfs s) \<and> map without_inferred ws' = map without_inferred (wfs s))"
proof -
  from assms obtain sp ws' where "assign_inferred sp (wfs s) = Inr ws'"
    and s': "s' = s\<lparr>m_inferred_features_queue := m_inferred_features_queue s @ ws',
                bases_batch := [], quals_batch := [], lengths := [], sizes := [], wfs := [],
                indices_batch := [], remaining_batch_slots := batch_size env,
                backend_log := snd (forward_with_retry env (backend_log s) (batch_inputs env s))\<rparr>"
    by (rule batch_infer_Inr)
  then have "length ws' = length (wfs s) \<and> map without_inferred ws' = map without_inferred (wfs s)"
    using assign_inferred_Inr by blast
  then show ?thesis by (simp add: s' batch_inv_def)
qed

lemma accept_window_effect:
  assumes "accept_window item required s = Inr s'"
  shows "wfs s' = wfs s @ [item] \<and>
     remaining_batch_slots s' = remaining_batch_slots s - required \<and>
     m_inferred_features_queue s' = m_inferred_features_queue s \<and>
     backend_log s' = backend_log s \<and>
     sizes s' = sizes s @ [wf_length item] \<and>
     (batch_inv s \<longrightarrow> batch_inv s')"
  using assms
  by (auto simp: accept_window_def sum_bind_def batch_inv_def split: sum.splits)

subsection \<open>The loop of the worker\<close>

lemma infer_init_inv: "batch_inv (infer_init env)"
  by (simp add: batch_inv_def infer_init_def)

lemma on_window_cases:
  assumes "on_window env item s = Inr s'"
  obtains required s1 where "required_batch_slots item = Inr required"
    and "if required > remaining_batch_slots s then batch_infer env s = Inr s1 else s1 = s"
    and "accept_window item required s1 = Inr s'"
  using assms by (auto simp: on_window_def sum_bind_def split: sum.splits if_splits)

lemma on_window_effect:
  assumes "on_window env item s = Inr s'" and "batch_inv s"
  shows "batch_inv s' \<and>
     map without_inferred (m_inferred_features_queue s') @ map without_inferred (wfs s') =
       map without_inferred (m_inferred_features_queue s) @ map without_inferred (wfs s) @
         [without_inferred item]"
proof -
  from assms(1) obtain required s1 where
    s1: "if required > remaining_batch_slots s then batch_infer env s = Inr s1 else s1 = s"
    and acc: "accept_window item required s1 = Inr s'"
    by (rule on_window_cases)
  have "batch_inv s1 \<and>
     map without_inferred (m_inferred_features_queue s1) @ map without_inferred (wfs s1) =
       map without_inferred (m_inferred_features_queue s) @ map without_inferred (wfs s)"
  proof (cases "required > remaining_batch_slots s")
    case True
    with s1 have "batch_infer env s = Inr s1" by simp
    from batch_infer_effect [OF this] show ?thesis by auto
  next
    case False
    with s1 assms(2) show ?thesis by simp
  qed
  with accept_window_effect [OF acc] show ?thesis by simp
qed

lemma on_timeout_effect:
  assumes "on_timeout env s = Inr s'" and "batch_inv s"
  shows "batch_inv s' \<and> wfs s' = [] \<and>
     map without_inferred (m_inferred_features_queue s') =
       map without_inferred (m_inferred_features_queue s) @ map without_inferred (wfs s)"
proof (cases "length (bases_batch s) > 0")
  case True
  with assms(1) have "batch_infer env s = Inr s'" by (simp add: on_timeout_def)
  from batch_infer_effect [OF this] show ?thesis by auto
next
  case False
  with assms have "s' = s" and "wfs s = []"
    by (simp_all add: on_timeout_def batch_inv_def)
  with assms(2) show ?thesis by simp
qed

lemma infer_loop_effect:
  "infer_loop env pops s = Inr s' \<Longrightarrow> batch_inv s \<Longrightarrow>
   batch_inv s' \<and>
   map without_inferred (m_inferred_features_queue s') @ map without_inferred (wfs s') =
     map without_inferred (m_inferred_features_queue s) @ map without_inferred (wfs s) @
       map without_inferred (popped_windows pops)"
proof (induction env pops s rule: infer_loop.induct)
  case (1 env s)
  then show ?case by simp
next
  case (2 env pops s)
  from "2.prems"(1) obtain s1 where s1: "on_timeout env s = Inr s1"
    and rest: "infer_loop env pops s1 = Inr s'"
    by (cases "on_timeout env s") auto
  from on_timeout_effect [OF s1 "2.prems"(2)] "2.IH" [OF rest] show ?case by simp
next
  case (3 env item pops s)
  from "3.prems"(1) obtain s1 where s1: "on_window env item s = Inr s1"
    and rest: "infer_loop env pops s1 = Inr s'"
    by (cases "on_window env item s") auto
  from on_window_effect [OF s1 "3.prems"(2)] "3.IH" [OF rest] show ?case by simp
qed

lemma infer_loop_append:
  "infer_loop env (pops @ rest) s = sum_bind (infer_loop env pops s) (infer_loop env rest)"
  by (induction env pops s rule: infer_loop.induct) (auto simp: sum_bind_def split: sum.splits)

text \<open>
  Claim C6. The inference worker discards no accumulated window. Whenever \<^verbatim>\<open>infer_fn\<close>
  returns, that is, the queue has terminated and no flush has thrown, the windows it has
  pushed to the inferred queue are, up to their \<open>inferred_bases\<close>, exactly the windows it
  has popped, in order, and the accumulator is empty: the flush after the loop takes what
  was left. The same holds right after every timeout of the pop: a timeout with a
  non-empty accumulator flushes it and the loop continues. A window reaches the inferred
  queue only through \<^verbatim>\<open>batch_infer\<close>.
\<close>

theorem C6_no_window_discarded:
  "(infer_fn env pops = Inr s' \<longrightarrow>
      map without_inferred (m_inferred_features_queue s') =
        map without_inferred (popped_windows pops) \<and>
      wfs s' = [] \<and> bases_batch s' = []) \<and>
   (infer_loop env (pops @ [Timeout]) (infer_init env) = Inr s \<longrightarrow>
      map without_inferred (m_inferred_features_queue s) =
        map without_inferred (popped_windows pops) \<and>
      wfs s = [] \<and> bases_batch s = [])"
proof -
  have final: "map without_inferred (m_inferred_features_queue s') =
        map without_inferred (popped_windows pops) \<and> wfs s' = [] \<and> bases_batch s' = []"
    if run: "infer_fn env pops = Inr s'"
  proof -
    from run obtain s1 where loop: "infer_loop env pops (infer_init env) = Inr s1"
      and last: "(if length (bases_batch s1) > 0 then batch_infer env s1 else Inr s1) = Inr s'"
      by (auto simp: infer_fn_def sum_bind_def split: sum.splits)
    from infer_loop_effect [OF loop infer_init_inv]
    have inv: "batch_inv s1"
      and all: "map without_inferred (m_inferred_features_queue s1) @ map without_inferred (wfs s1) =
         map without_inferred (popped_windows pops)"
      by (simp_all add: infer_init_def)
    from last have "on_timeout env s1 = Inr s'" by (simp add: on_timeout_def)
    from on_timeout_effect [OF this inv] all show ?thesis
      by (auto simp: batch_inv_def)
  qed
  have timed: "map without_inferred (m_inferred_features_queue s) =
        map without_inferred (popped_windows pops) \<and> wfs s = [] \<and> bases_batch s = []"
    if run: "infer_loop env (pops @ [Timeout]) (infer_init env) = Inr s"
  proof -
    from run obtain s1 where loop: "infer_loop env pops (infer_init env) = Inr s1"
      and last: "on_timeout env s1 = Inr s"
      by (auto simp: infer_loop_append sum_bind_def split: sum.splits)
    from infer_loop_effect [OF loop infer_init_inv]
    have inv: "batch_inv s1"
      and all: "map without_inferred (m_inferred_features_queue s1) @ map without_inferred (wfs s1) =
         map without_inferred (popped_windows pops)"
      by (simp_all add: infer_init_def)
    from on_timeout_effect [OF last inv] all show ?thesis
      by (auto simp: batch_inv_def)
  qed
  from final timed show ?thesis by blast
qed



subsection \<open>One flush: device placement, retry, slots\<close>

lemma sample_batch_reached:
  "on_window (sample_env cuda fwd) (sample_window 0 2 [5] 7) (infer_init (sample_env cuda fwd)) =
     Inr sample_batch"
  by (simp add: on_window_def required_batch_slots_def accept_window_def transpose01_def
      sample_window_def sample_env_def infer_init_def sample_batch_def c_div_def to_int32_def)

lemma batch_inputs_collated_on_device:
  "\<exists>b q l ts. batch_inputs env s = [IV_Int_Tensor b, IV_Float_Tensor q, IV_Int_Tensor l, IV_Tensor_List ts] \<and>
     t_device b = device env \<and> t_device q = device env \<and> t_device l = device env \<and>
     ts = indices_batch s"
  by (simp add: batch_inputs_def Let_def to_device_def for_each_to_def)

text \<open>
  Claim C9 at a concrete flush. The worker runs on \<open>cuda:0\<close> and has accumulated one
  window, whose \<open>indices\<close> tensor is on the CPU (\<open>sample_batch\<close> is the state after that
  window, by \<open>sample_batch_reached\<close>). The collated bases, the collated qualities and the
  length tensor handed to the backend are on \<open>cuda:0\<close>, as they are at every flush
  (\<open>batch_inputs_collated_on_device\<close>); the tensor in \<open>indices_batch\<close> handed to the backend
  is still on the CPU, since the result of \<^verbatim>\<open>t.to(device)\<close> is dropped.
\<close>

theorem C9_indices_left_on_host:
  "device (sample_env True sample_forward) = CUDA 0 \<and>
   indices_batch sample_batch = [Tensor [1] CPU [5]] \<and>
   batch_inputs (sample_env True sample_forward) sample_batch =
     [IV_Int_Tensor (Tensor [1] (CUDA 0) []),
      IV_Float_Tensor (Tensor [1] (CUDA 0) []),
      IV_Int_Tensor (Tensor [1] (CUDA 0) [1]),
      IV_Tensor_List [Tensor [1] CPU [5]]]"
  by (simp add: batch_inputs_def Let_def to_device_def for_each_to_def sample_env_def
      sample_batch_def sample_collate_def)

text \<open>
  Claim C7, as stated, fails in a build without CUDA: the backend below throws a
  \<^verbatim>\<open>std::runtime_error\<close> on its first call and would answer the second one, but the flush
  calls it once, clears no cache, does not retry and throws.
\<close>

theorem C7_counterexample:
  "\<not> cuda_build (sample_env False flaky_forward) \<and>
   module_forward (sample_env False flaky_forward) (backend_log sample_batch)
     (batch_inputs (sample_env False flaky_forward) sample_batch) =
     Inl (Runtime_Error ''out of memory'') \<and>
   snd (forward_with_retry (sample_env False flaky_forward) (backend_log sample_batch)
          (batch_inputs (sample_env False flaky_forward) sample_batch)) =
     [Forward (batch_inputs (sample_env False flaky_forward) sample_batch)] \<and>
   batch_infer (sample_env False flaky_forward) sample_batch = Inl (Runtime_Error ''out of memory'')"
  by (simp add: batch_infer_def split_preds_def forward_with_retry_def sample_env_def
      flaky_forward_def sample_batch_def sum_bind_def)

text \<open>
  Claim C7, amended. When \<^verbatim>\<open>module.forward\<close> throws a \<^verbatim>\<open>std::runtime_error\<close> during a
  flush: in a CUDA build the allocator cache is cleared once and \<^verbatim>\<open>forward\<close> is called
  once more with the same inputs; what that second call throws is thrown by the flush,
  and what it returns is the output the flush goes on with. In a build without CUDA the
  first error is rethrown, with no cache cleared and no second call.
\<close>

theorem C7_retry:
  assumes fail: "module_forward env (backend_log s) (batch_inputs env s) = Inl (Runtime_Error what)"
  shows "(cuda_build env \<longrightarrow>
       forward_with_retry env (backend_log s) (batch_inputs env s) =
         (module_forward env (backend_log s @ [Forward (batch_inputs env s), Empty_Cache])
            (batch_inputs env s),
          backend_log s @ [Forward (batch_inputs env s), Empty_Cache, Forward (batch_inputs env s)]) \<and>
       (\<forall>e. module_forward env (backend_log s @ [Forward (batch_inputs env s), Empty_Cache])
               (batch_inputs env s) = Inl e \<longrightarrow>
            batch_infer env s = Inl e) \<and>
       (\<forall>output. module_forward env (backend_log s @ [Forward (batch_inputs env s), Empty_Cache])
               (batch_inputs env s) = Inr output \<longrightarrow>
            split_preds env s =
              sum_bind (predictions output) (\<lambda>preds. split_with_sizes preds (sizes s)))) \<and>
     (\<not> cuda_build env \<longrightarrow>
       forward_with_retry env (backend_log s) (batch_inputs env s) =
         (Inl (Runtime_Error what), backend_log s @ [Forward (batch_inputs env s)]) \<and>
       batch_infer env s = Inl (Runtime_Error what))"
  using fail
  by (simp add: forward_with_retry_def batch_infer_def split_preds_def sum_bind_def Let_def)

theorem C7_retry_witness:
  "module_forward (sample_env True flaky_forward) (backend_log sample_batch)
     (batch_inputs (sample_env True flaky_forward) sample_batch) =
     Inl (Runtime_Error ''out of memory'') \<and>
   cuda_build (sample_env True flaky_forward) \<and>
   snd (forward_with_retry (sample_env True flaky_forward) (backend_log sample_batch)
          (batch_inputs (sample_env True flaky_forward) sample_batch)) =
     backend_log sample_batch @
       [Forward (batch_inputs (sample_env True flaky_forward) sample_batch), Empty_Cache,
        Forward (batch_inputs (sample_env True flaky_forward) sample_batch)] \<and>
   module_forward (sample_env False flaky_forward) (backend_log sample_batch)
     (batch_inputs (sample_env False flaky_forward) sample_batch) =
     Inl (Runtime_Error ''out of memory'') \<and>
   \<not> cuda_build (sample_env False flaky_forward) \<and>
   batch_infer (sample_env False flaky_forward) sample_batch = Inl (Runtime_Error ''out of memory'')"
proof -
  have fail: "module_forward (sample_env True flaky_forward) (backend_log sample_batch)
     (batch_inputs (sample_env True flaky_forward) sample_batch) =
     Inl (Runtime_Error ''out of memory'')"
    by (simp add: sample_env_def flaky_forward_def sample_batch_def)
  have cuda: "cuda_build (sample_env True flaky_forward)"
    by (simp add: sample_env_def)
  have fail': "module_forward (sample_env False flaky_forward) (backend_log sample_batch)
     (batch_inputs (sample_env False flaky_forward) sample_batch) =
     Inl (Runtime_Error ''out of memory'')"
    by (simp add: sample_env_def flaky_forward_def sample_batch_def)
  have host: "\<not> cuda_build (sample_env False flaky_forward)"
    by (simp add: sample_env_def)
  from C7_retry [OF fail] C7_retry [OF fail'] cuda host fail fail' show ?thesis by simp
qed

lemma required_batch_slots_floor:
  assumes "t_sizes (bases item) = d0 # W # rest" and "W < 2 ^ 31"
  shows "required_batch_slots item = Inr (int (W div 5120) + 1)"
proof -
  have "int W < 2 ^ 31" using assms(2) by simp
  then have "to_int32 (int W) = int W" by (simp add: to_int32_small)
  moreover have "c_div (int W) 5120 = int (W div 5120)"
    by (cases "W = 0") (simp_all add: c_div_def zdiv_int)
  ultimately show ?thesis using assms(1) by (simp add: required_batch_slots_def)
qed

text \<open>
  Claim C4. A window whose MSA has \<open>W\<close> columns (the second dimension of its bases tensor,
  \<open>W < 2^31\<close>) claims \<open>W div 5120 + 1\<close> slots. On its arrival, if that exceeds the remaining
  slots the accumulator is flushed first and the window is then accepted into the empty
  accumulator, leaving \<open>batch_size\<close> minus its slots; otherwise it is appended to the
  accumulator without a flush and its slots are subtracted. Every flush that returns
  leaves the remaining slots at \<open>batch_size\<close>.
\<close>

theorem C4_batch_slots:
  assumes shape: "t_sizes (bases item) = d0 # W # rest" and small: "W < 2 ^ 31"
  shows "required_batch_slots item = Inr (int (W div 5120) + 1) \<and>
     (\<forall>s1. batch_infer env s = Inr s1 \<longrightarrow>
        remaining_batch_slots s1 = batch_size env \<and> wfs s1 = []) \<and>
     (\<forall>s'. on_window env item s = Inr s' \<longrightarrow>
        (if int (W div 5120) + 1 > remaining_batch_slots s
         then (\<exists>s1. batch_infer env s = Inr s1 \<and>
                 accept_window item (int (W div 5120) + 1) s1 = Inr s' \<and>
                 m_inferred_features_queue s' = m_inferred_features_queue s1 \<and>
                 wfs s' = [item] \<and>
                 remaining_batch_slots s' = batch_size env - (int (W div 5120) + 1))
         else accept_window item (int (W div 5120) + 1) s = Inr s' \<and>
              wfs s' = wfs s @ [item] \<and>
              remaining_batch_slots s' = remaining_batch_slots s - (int (W div 5120) + 1) \<and>
              m_inferred_features_queue s' = m_inferred_features_queue s \<and>
              backend_log s' = backend_log s))"
proof -
  let ?r = "int (W div 5120) + 1"
  have req: "required_batch_slots item = Inr ?r"
    using shape small by (rule required_batch_slots_floor)
  have reset: "remaining_batch_slots s1 = batch_size env \<and> wfs s1 = []"
    if "batch_infer env s = Inr s1" for s1
    using batch_infer_effect [OF that] by simp
  have arrival: "if ?r > remaining_batch_slots s
         then (\<exists>s1. batch_infer env s = Inr s1 \<and> accept_window item ?r s1 = Inr s' \<and>
                 m_inferred_features_queue s' = m_inferred_features_queue s1 \<and>
                 wfs s' = [item] \<and> remaining_batch_slots s' = batch_size env - ?r)
         else accept_window item ?r s = Inr s' \<and> wfs s' = wfs s @ [item] \<and>
              remaining_batch_slots s' = remaining_batch_slots s - ?r \<and>
              m_inferred_features_queue s' = m_inferred_features_queue s \<and>
              backend_log s' = backend_log s"
    if run: "on_window env item s = Inr s'" for s'
  proof (cases "?r > remaining_batch_slots s")
    case True
    with run req obtain s1 where flush: "batch_infer env s = Inr s1"
      and acc: "accept_window item ?r s1 = Inr s'"
      by (auto simp: on_window_def sum_bind_def split: sum.splits)
    from batch_infer_effect [OF flush] accept_window_effect [OF acc] flush acc True
    show ?thesis by auto
  next
    case False
    with run req have acc: "accept_window item ?r s = Inr s'"
      by (simp add: on_window_def)
    from accept_window_effect [OF acc] acc False show ?thesis by auto
  qed
  from req reset arrival show ?thesis by blast
qed

section \<open>The batcher on the sample inputs\<close>

lemma transpose01_no_data:
  "t_data t = [] \<Longrightarrow> t_sizes t = a # b # rest \<Longrightarrow>
   transpose01 t = Inr (Tensor (b # a # rest) (t_device t) [])"
  by (simp add: transpose01_def Let_def)

lemma big_batch_reached:
  "on_window (sample_env True sample_forward) (sample_window 0 2 [5] 12000)
     (infer_init (sample_env True sample_forward)) = Inr big_batch"
  by (simp add: on_window_def required_batch_slots_def accept_window_def transpose01_no_data
      sample_window_def sample_env_def infer_init_def c_div_def to_int32_def big_batch_def)

lemma argmax_row_sample: "argmax_row [0, 0, 9, 0, 0 :: int] = 2"
  by code_simp

lemma decode_preds_sample: "decode_preds (Tensor [Suc 0] CPU [2]) = Inr ''G''"
  by code_simp

lemma big_batch_split:
  "split_preds (sample_env True sample_forward) big_batch = Inr [Tensor [1] CPU [2]]"
  by (simp add: split_preds_def forward_with_retry_def batch_inputs_def sample_env_def
      sample_forward_def predictions_def argmax1_def argmax_row_sample split_with_sizes_def
      sample_collate_def to_device_def for_each_to_def big_batch_def Let_def)

lemma big_batch_flush:
  "\<exists>s1. batch_infer (sample_env True sample_forward) big_batch = Inr s1 \<and>
     m_inferred_features_queue s1 = [(sample_window 0 2 [5] 12000)\<lparr>inferred_bases := ''G''\<rparr>]"
proof -
  have "wfs big_batch = [sample_window 0 2 [5] 12000]"
    and "m_inferred_features_queue big_batch = []"
    by (simp_all add: big_batch_def)
  then show ?thesis
    by (simp add: batch_infer_def big_batch_split decode_preds_sample)
qed

theorem C4_batch_slots_witness:
  "t_sizes (bases (sample_window 2 3 [0, 4] 12000)) = 2 # 12000 # [] \<and> (12000 :: nat) < 2 ^ 31 \<and>
   required_batch_slots (sample_window 2 3 [0, 4] 12000) = Inr 3 \<and>
   batch_size (sample_env True sample_forward) = 4 \<and>
   on_window (sample_env True sample_forward) (sample_window 0 2 [5] 12000)
     (infer_init (sample_env True sample_forward)) = Inr big_batch \<and>
   remaining_batch_slots big_batch = 1 \<and>
   (\<exists>s'. on_window (sample_env True sample_forward) (sample_window 2 3 [0, 4] 12000) big_batch = Inr s' \<and>
         m_inferred_features_queue s' = [(sample_window 0 2 [5] 12000)\<lparr>inferred_bases := ''G''\<rparr>] \<and>
         wfs s' = [sample_window 2 3 [0, 4] 12000] \<and> remaining_batch_slots s' = 1)"
proof -
  let ?env = "sample_env True sample_forward"
  let ?w2 = "sample_window 2 3 [0, 4] 12000"
  have shape: "t_sizes (bases ?w2) = 2 # 12000 # []"
    by (simp add: sample_window_def)
  have small: "(12000 :: nat) < 2 ^ 31"
    by simp
  have bs: "batch_size ?env = 4"
    by (simp add: sample_env_def)
  have rem: "remaining_batch_slots big_batch = 1"
    by (simp add: big_batch_def)
  obtain s1 where flush: "batch_infer ?env big_batch = Inr s1"
    and pushed: "m_inferred_features_queue s1 =
       [(sample_window 0 2 [5] 12000)\<lparr>inferred_bases := ''G''\<rparr>]"
    using big_batch_flush by blast
  have req: "required_batch_slots ?w2 = Inr 3"
    by (simp add: required_batch_slots_def sample_window_def c_div_def to_int32_def)
  have "\<exists>s'. on_window ?env ?w2 big_batch = Inr s'"
    by (simp add: on_window_def req rem flush accept_window_def)
       (simp add: transpose01_no_data sample_window_def)
  then obtain s' where second: "on_window ?env ?w2 big_batch = Inr s'" ..
  have div: "int (12000 div 5120) + 1 = (3 :: int)"
    by simp
  from C4_batch_slots [OF shape small, of ?env big_batch] second flush
  have "required_batch_slots ?w2 = Inr 3 \<and>
     m_inferred_features_queue s' = m_inferred_features_queue s1 \<and>
     wfs s' = [?w2] \<and> remaining_batch_slots s' = 1"
    unfolding div by (auto simp: bs rem split: if_splits)
  with shape small big_batch_reached rem second bs pushed show ?thesis
    by simp
qed


theorem C6_no_window_discarded_witness:
  "infer_fn (sample_env True sample_forward)
     [Success (sample_window 0 2 [5] 7), Timeout, Timeout, Success (sample_window 2 3 [0, 4] 7)] =
     Inr (projr (infer_fn (sample_env True sample_forward)
       [Success (sample_window 0 2 [5] 7), Timeout, Timeout, Success (sample_window 2 3 [0, 4] 7)])) \<and>
   map without_inferred (m_inferred_features_queue (projr (infer_fn (sample_env True sample_forward)
       [Success (sample_window 0 2 [5] 7), Timeout, Timeout, Success (sample_window 2 3 [0, 4] 7)]))) =
     map without_inferred [sample_window 0 2 [5] 7, sample_window 2 3 [0, 4] 7] \<and>
   infer_loop (sample_env True sample_forward) ([Success (sample_window 0 2 [5] 7)] @ [Timeout])
     (infer_init (sample_env True sample_forward)) =
     Inr (projr (infer_loop (sample_env True sample_forward)
            ([Success (sample_window 0 2 [5] 7)] @ [Timeout])
            (infer_init (sample_env True sample_forward)))) \<and>
   wfs (projr (infer_loop (sample_env True sample_forward)
            ([Success (sample_window 0 2 [5] 7)] @ [Timeout])
            (infer_init (sample_env True sample_forward)))) = []"
proof -
  let ?env = "sample_env True sample_forward"
  let ?pops = "[Success (sample_window 0 2 [5] 7), Timeout, Timeout, Success (sample_window 2 3 [0, 4] 7)]"
  let ?s' = "projr (infer_fn ?env ?pops)"
  let ?s = "projr (infer_loop ?env ([Success (sample_window 0 2 [5] 7)] @ [Timeout]) (infer_init ?env))"
  have run: "infer_fn ?env ?pops = Inr ?s'"
    by code_simp
  have timed: "infer_loop ?env ([Success (sample_window 0 2 [5] 7)] @ [Timeout]) (infer_init ?env) = Inr ?s"
    by code_simp
  have pw: "popped_windows ?pops = [sample_window 0 2 [5] 7, sample_window 2 3 [0, 4] 7]"
    by simp
  from C6_no_window_discarded [of ?env ?pops ?s'] run
  have final: "map without_inferred (m_inferred_features_queue ?s') =
      map without_inferred (popped_windows ?pops)"
    by blast
  from C6_no_window_discarded [of ?env "[Success (sample_window 0 2 [5] 7)]" _ ?s] timed
  have "wfs ?s = []"
    by blast
  with final run timed show ?thesis
    unfolding pw by blast
qed

end
